theory Spec2Isabelle
  imports Complex_Main "HOL-Library.Word" "HOL-Library.Log_Nat"
begin

unbundle bit_operations_syntax

section \<open>Floating-point values\<close>

text \<open>
  The transformer works on \<open>np.float_\<close> arrays. A value is a finite number, one of the two
  infinities, or not-a-number. Finite arithmetic is exact here (no rounding, no overflow to
  infinity, one zero); the special values follow IEEE 754: not-a-number is absorbing and
  every ordered comparison with it is false. The compiled loops carry \<open>fastmath=True\<close>,
  which allows the compiler to assume that no special value occurs; the model follows the
  source as it is written.
\<close>

datatype fl = Fin real | PInf | NInf | NaN

text \<open>\<open>x <= y\<close> on floats.\<close>

fun fle :: "fl \<Rightarrow> fl \<Rightarrow> bool" where
  "fle NaN y = False"
| "fle x NaN = False"
| "fle NInf y = True"
| "fle x PInf = True"
| "fle (Fin a) (Fin b) = (a \<le> b)"
| "fle PInf y = False"
| "fle x NInf = False"

fun fneg :: "fl \<Rightarrow> fl" where
  "fneg (Fin a) = Fin (- a)"
| "fneg PInf = NInf"
| "fneg NInf = PInf"
| "fneg NaN = NaN"

fun fadd :: "fl \<Rightarrow> fl \<Rightarrow> fl" where
  "fadd NaN y = NaN"
| "fadd x NaN = NaN"
| "fadd (Fin a) (Fin b) = Fin (a + b)"
| "fadd PInf NInf = NaN"
| "fadd NInf PInf = NaN"
| "fadd PInf y = PInf"
| "fadd NInf y = NInf"
| "fadd x PInf = PInf"
| "fadd x NInf = NInf"

definition fsub :: "fl \<Rightarrow> fl \<Rightarrow> fl" where
  "fsub x y = fadd x (fneg y)"

text \<open>The sign of a non-NaN value: \<open>-1\<close>, \<open>0\<close> or \<open>1\<close>.\<close>

fun fsgn :: "fl \<Rightarrow> real" where
  "fsgn (Fin a) = sgn a"
| "fsgn PInf = 1"
| "fsgn NInf = - 1"
| "fsgn NaN = 0"

definition signed_inf :: "real \<Rightarrow> fl" where
  "signed_inf s = (if s = 0 then NaN else if 0 < s then PInf else NInf)"

fun fmul :: "fl \<Rightarrow> fl \<Rightarrow> fl" where
  "fmul NaN y = NaN"
| "fmul x NaN = NaN"
| "fmul (Fin a) (Fin b) = Fin (a * b)"
| "fmul x y = signed_inf (fsgn x * fsgn y)"

text \<open>
  IEEE division as numpy performs it: a finite non-zero value over zero is an infinity,
  zero over zero and infinity over infinity are not-a-number.
\<close>

fun fdiv :: "fl \<Rightarrow> fl \<Rightarrow> fl" where
  "fdiv NaN y = NaN"
| "fdiv x NaN = NaN"
| "fdiv (Fin a) (Fin b) = (if b = 0 then signed_inf a else Fin (a / b))"
| "fdiv (Fin a) y = Fin 0"
| "fdiv x (Fin b) = (if b < 0 then fneg x else x)"
| "fdiv x y = NaN"

fun fsqrt :: "fl \<Rightarrow> fl" where
  "fsqrt (Fin a) = (if a < 0 then NaN else Fin (sqrt a))"
| "fsqrt PInf = PInf"
| "fsqrt NInf = NaN"
| "fsqrt NaN = NaN"

definition fsum :: "fl list \<Rightarrow> fl" where
  "fsum xs = foldl fadd (Fin 0) xs"

section \<open>Errors\<close>

text \<open>
  The exceptions a call can end in: the two configuration errors raised by the transformer
  itself, numpy's refusal of a negative dimension, the missing key of the breakpoint
  dictionary, and the division check of the compiled loops (numba's default error model
  raises on a zero divisor). A compiled loop does not check the index of an array write;
  the model stops at a write outside the array, with \<open>OutOfBounds\<close>.
\<close>

datatype error =
    RuntimeError string
  | ValueError
  | KeyError
  | ZeroDivisionError
  | OutOfBounds

fun map_err :: "('a \<Rightarrow> error + 'b) \<Rightarrow> 'a list \<Rightarrow> error + 'b list" where
  "map_err f [] = Inr []"
| "map_err f (x # xs) =
     (case f x of
        Inl e \<Rightarrow> Inl e
      | Inr y \<Rightarrow> (case map_err f xs of Inl e \<Rightarrow> Inl e | Inr ys \<Rightarrow> Inr (y # ys)))"

section \<open>Breakpoints\<close>

text \<open>
  \<open>_generate_breakpoints\<close>: the dictionary of Gaussian breakpoints, keyed by the alphabet
  size; every entry ends in the \<open>+infinity\<close> sentinel. A key outside 2..10 is a KeyError.
  The decimal literals stand for the numbers they denote.
\<close>

definition generate_breakpoints :: "int \<Rightarrow> error + fl list" where
  "generate_breakpoints alphabet_size =
     (if alphabet_size = 2 then Inr [Fin 0, PInf]
      else if alphabet_size = 3 then Inr [Fin (- 43 / 100), Fin (43 / 100), PInf]
      else if alphabet_size = 4 then Inr [Fin (- 67 / 100), Fin 0, Fin (67 / 100), PInf]
      else if alphabet_size = 5 then
        Inr [Fin (- 84 / 100), Fin (- 25 / 100), Fin (25 / 100), Fin (84 / 100), PInf]
      else if alphabet_size = 6 then
        Inr [Fin (- 97 / 100), Fin (- 43 / 100), Fin 0, Fin (43 / 100), Fin (97 / 100), PInf]
      else if alphabet_size = 7 then
        Inr [Fin (- 107 / 100), Fin (- 57 / 100), Fin (- 18 / 100), Fin (18 / 100),
             Fin (57 / 100), Fin (107 / 100), PInf]
      else if alphabet_size = 8 then
        Inr [Fin (- 115 / 100), Fin (- 67 / 100), Fin (- 32 / 100), Fin 0, Fin (32 / 100),
             Fin (67 / 100), Fin (115 / 100), PInf]
      else if alphabet_size = 9 then
        Inr [Fin (- 122 / 100), Fin (- 76 / 100), Fin (- 43 / 100), Fin (- 14 / 100),
             Fin (14 / 100), Fin (43 / 100), Fin (76 / 100), Fin (122 / 100), PInf]
      else if alphabet_size = 10 then
        Inr [Fin (- 128 / 100), Fin (- 84 / 100), Fin (- 52 / 100), Fin (- 25 / 100), Fin 0,
             Fin (25 / 100), Fin (52 / 100), Fin (84 / 100), Fin (128 / 100), PInf]
      else Inl KeyError)"

section \<open>Word encoder\<close>

text \<open>
  \<open>_generate_words\<close>. The inner loop scans the breakpoints upwards and stops at the first
  one the segment value is \<open><=\<close>; \<open>first_breakpoint\<close> is the index \<open>bp\<close> at which it
  breaks, \<open>None\<close> when the scan runs to its end without breaking.
\<close>

definition first_breakpoint :: "fl \<Rightarrow> fl list \<Rightarrow> nat option" where
  "first_breakpoint v breakpoints =
     find (\<lambda>bp. fle v (breakpoints ! bp)) [0..<length breakpoints]"

text \<open>
  The body of the outer loop: \<open>word = (word << letter_bits) | bp\<close>, executed only when
  the scan breaks. The accumulator starts as \<open>np.int32(0)\<close>; shifted by an unsigned count
  and or-ed with the loop index it is a 64-bit integer from the first assignment on, which
  is also the element type \<open>np.int_\<close> of the word matrix.
\<close>

definition emit :: "nat \<Rightarrow> 64 word \<Rightarrow> nat \<Rightarrow> 64 word" where
  "emit letter_bits word bp = push_bit letter_bits word OR of_nat bp"

definition generate_words :: "fl list \<Rightarrow> nat \<Rightarrow> fl list \<Rightarrow> nat \<Rightarrow> 64 word" where
  "generate_words pattern word_length breakpoints letter_bits =
     fold (\<lambda>i word.
             case first_breakpoint (pattern ! i) breakpoints of
               Some bp \<Rightarrow> emit letter_bits word bp
             | None \<Rightarrow> word)
          [0..<word_length] 0"

text \<open>
  The same loop in two parts: the symbols that are emitted, in time order (a segment whose
  scan does not break emits none), and the accumulation of emitted symbols into the word.
\<close>

definition symbols_of :: "fl list \<Rightarrow> nat \<Rightarrow> fl list \<Rightarrow> nat list" where
  "symbols_of pattern word_length breakpoints =
     List.map_filter (\<lambda>i. first_breakpoint (pattern ! i) breakpoints) [0..<word_length]"

definition pack_symbols :: "nat \<Rightarrow> nat list \<Rightarrow> 64 word" where
  "pack_symbols letter_bits syms = fold (\<lambda>bp word. emit letter_bits word bp) syms 0"

text \<open>
  The decoding the specification describes, which the code does not contain: symbol \<open>i\<close>
  of \<open>word_length\<close> is read by shifting the word right by the width of the symbols after
  it and masking \<open>letter_bits\<close> bits.
\<close>

definition unpack_word :: "nat \<Rightarrow> nat \<Rightarrow> 64 word \<Rightarrow> nat list" where
  "unpack_word letter_bits word_length w =
     map (\<lambda>i. unat (drop_bit ((word_length - 1 - i) * letter_bits) w AND mask letter_bits))
         [0..<word_length]"

text \<open>The number whose digits in base \<open>B\<close>, most significant first, are \<open>syms\<close>.\<close>

definition digits_value :: "nat \<Rightarrow> nat list \<Rightarrow> nat" where
  "digits_value B syms = fold (\<lambda>s acc. acc * B + s) syms 0"

section \<open>Per-window z-normalisation\<close>

text \<open>
  \<open>scipy.stats.zscore(split, axis=1)\<close> is a library call; the model follows its
  documented contract: every row has its mean subtracted and is divided by its population
  standard deviation (\<open>ddof = 0\<close>), with no special case for a zero deviation. The mean of
  an empty row is not-a-number, and the row stays empty.
\<close>

definition fmean :: "fl list \<Rightarrow> fl" where
  "fmean xs = fdiv (fsum xs) (Fin (real (length xs)))"

definition fstd :: "fl list \<Rightarrow> fl" where
  "fstd xs =
     (let mn = fmean xs;
          dev = map (\<lambda>x. fsub x mn) xs
      in fsqrt (fmean (map (\<lambda>d. fmul d d) dev)))"

definition zscore_row :: "fl list \<Rightarrow> fl list" where
  "zscore_row xs = (let mn = fmean xs; sd = fstd xs in map (\<lambda>x. fdiv (fsub x mn) sd) xs)"

definition zscore :: "fl list list \<Rightarrow> fl list list" where
  "zscore split = map zscore_row split"

section \<open>Piecewise aggregate approximation\<close>

text \<open>
  \<open>_perform_paa_along_dim\<close>, one row at a time. The loop variables of a row are the
  output row \<open>data[i, :]\<close>, \<open>current_frame\<close>, \<open>current_frame_size\<close> and
  \<open>frame_sum\<close>. \<open>frame_length\<close>, \<open>remaining\<close> and \<open>current_frame_size\<close> are computed
  from the two dimensions only, never from the samples, so they are finite and kept as
  reals; \<open>frame_sum\<close> and the output carry whatever the samples carry.

  Division in the compiled loop checks its divisor and raises on zero.
\<close>

record paa_state =
  data :: "fl list"
  current_frame :: nat
  current_frame_size :: real
  frame_sum :: fl

definition numba_div :: "fl \<Rightarrow> real \<Rightarrow> error + fl" where
  "numba_div x d = (if d = 0 then Inl ZeroDivisionError else Inr (fdiv x (Fin d)))"

text \<open>The write \<open>data[i, current_frame] = v\<close> into row \<open>i\<close> of the output.\<close>

definition store :: "fl list \<Rightarrow> nat \<Rightarrow> fl \<Rightarrow> error + fl list" where
  "store row j v = (if j < length row then Inr (row[j := v]) else Inl OutOfBounds)"

text \<open>The body of \<open>for n in range(num_atts)\<close> on the sample \<open>series[n]\<close>.\<close>

definition paa_step :: "real \<Rightarrow> fl \<Rightarrow> paa_state \<Rightarrow> error + paa_state" where
  "paa_step frame_length x s =
     (let remaining = frame_length - current_frame_size s;
          s1 = (if remaining > 1
                then s\<lparr>frame_sum := fadd (frame_sum s) x,
                       current_frame_size := current_frame_size s + 1\<rparr>
                else s\<lparr>frame_sum := fadd (frame_sum s) (fmul (Fin remaining) x),
                       current_frame_size := current_frame_size s + remaining\<rparr>)
      in if current_frame_size s1 = frame_length
         then (case numba_div (frame_sum s1) frame_length of
                 Inl e \<Rightarrow> Inl e
               | Inr v \<Rightarrow>
                   (case store (data s1) (current_frame s1) v of
                      Inl e \<Rightarrow> Inl e
                    | Inr d \<Rightarrow>
                        Inr (s1\<lparr>data := d,
                                current_frame := current_frame s1 + 1,
                                frame_sum := fmul (Fin (1 - remaining)) x,
                                current_frame_size := 1 - remaining\<rparr>)))
         else Inr s1)"

fun paa_loop :: "real \<Rightarrow> fl list \<Rightarrow> paa_state \<Rightarrow> error + paa_state" where
  "paa_loop frame_length [] s = Inr s"
| "paa_loop frame_length (x # xs) s =
     (case paa_step frame_length x s of
        Inl e \<Rightarrow> Inl e
      | Inr s' \<Rightarrow> paa_loop frame_length xs s')"

text \<open>
  One iteration of \<open>for i in range(num_insts)\<close>: the row of zeros from \<open>np.zeros\<close>, the
  loop over the samples, and the final write when the loop ended one frame short.
  \<open>num_atts / num_intervals\<close> is itself a checked division.
\<close>

definition paa_row :: "nat \<Rightarrow> fl list \<Rightarrow> error + fl list" where
  "paa_row num_intervals series =
     (if num_intervals = 0 then Inl ZeroDivisionError
      else
        let frame_length = real (length series) / real num_intervals;
            s0 = \<lparr>data = replicate num_intervals (Fin 0), current_frame = 0,
                  current_frame_size = 0, frame_sum = Fin 0\<rparr>
        in case paa_loop frame_length series s0 of
             Inl e \<Rightarrow> Inl e
           | Inr s \<Rightarrow>
               if current_frame s = num_intervals - 1
               then (case numba_div (frame_sum s) frame_length of
                       Inl e \<Rightarrow> Inl e
                     | Inr v \<Rightarrow> store (data s) (current_frame s) v)
               else Inr (data s))"

definition perform_paa_along_dim :: "fl list list \<Rightarrow> nat \<Rightarrow> error + fl list list" where
  "perform_paa_along_dim X num_intervals = map_err (paa_row num_intervals) X"

text \<open>
  What the loop keeps true, whatever the samples are: after \<open>k\<close> samples the completed
  frames and the open one account for exactly \<open>k\<close> samples, and the output row has its
  \<open>wl\<close> columns.
\<close>

definition paa_inv :: "nat \<Rightarrow> real \<Rightarrow> nat \<Rightarrow> paa_state \<Rightarrow> bool" where
  "paa_inv wl fl k s \<longleftrightarrow>
     real (current_frame s) * fl + current_frame_size s = real k \<and>
     0 \<le> current_frame_size s \<and> length (data s) = wl"


section \<open>Repeat-word suppression\<close>

text \<open>
  \<open>_remove_repeating_words\<close>: per row, \<open>last_word\<close> starts at 0; a cell equal to
  \<open>last_word\<close> is overwritten with 0, and \<open>last_word\<close> is then read back from the cell.
\<close>

fun remove_repeating_row :: "64 word \<Rightarrow> 64 word list \<Rightarrow> 64 word list" where
  "remove_repeating_row last_word [] = []"
| "remove_repeating_row last_word (w # ws) =
     (let w' = (if last_word = w then 0 else w)
      in w' # remove_repeating_row w' ws)"

definition remove_repeating_words :: "64 word list list \<Rightarrow> 64 word list list" where
  "remove_repeating_words words = map (remove_repeating_row 0) words"

section \<open>Output forms and windows\<close>

text \<open>
  \<open>csr_matrix(all_words, dtype=np.uint32)\<close>, a library call: of every row the non-zero
  cells are kept, as pairs of column and value, and the values are converted to unsigned
  32-bit integers. \<open>csr_entry\<close> reads a position back: a column that is not stored is 0.
\<close>

definition csr_row :: "64 word list \<Rightarrow> (nat \<times> 32 word) list" where
  "csr_row r = map (\<lambda>(j, w). (j, ucast w)) (filter (\<lambda>(j, w). w \<noteq> 0) (zip [0..<length r] r))"

definition csr_entry :: "(nat \<times> 32 word) list list \<Rightarrow> nat \<Rightarrow> nat \<Rightarrow> 32 word" where
  "csr_entry m i j = (case map_of (m ! i) j of Some v \<Rightarrow> v | None \<Rightarrow> 0)"

datatype sax_output =
    Dense nat nat "64 word list list"
  | Sparse nat nat "(nat \<times> 32 word) list list"
  | DataFrame "64 word list list"

text \<open>
  The numbers an output holds: the cells of the dense matrix and of the per-instance
  sequences are signed 64-bit integers, the stored values of the sparse form are unsigned
  32-bit integers (every cell it does not store is 0).
\<close>

fun output_entries :: "sax_output \<Rightarrow> int list" where
  "output_entries (Dense n m ws) = map sint (concat ws)"
| "output_entries (Sparse n m rs) = map (\<lambda>(j, v). uint v) (concat rs)"
| "output_entries (DataFrame ws) = map sint (concat ws)"

text \<open>
  The sliding windows of instance \<open>i\<close>: row \<open>w\<close> of the index array is
  \<open>w + arange(window_size)\<close>.
\<close>

definition windows :: "fl list \<Rightarrow> int \<Rightarrow> nat \<Rightarrow> fl list list" where
  "windows series window_size num_windows =
     map (\<lambda>w. map (\<lambda>k. series ! (w + k)) [0..<nat window_size]) [0..<num_windows]"

definition instance_words ::
    "fl list \<Rightarrow> int \<Rightarrow> nat \<Rightarrow> nat \<Rightarrow> fl list \<Rightarrow> nat \<Rightarrow> error + 64 word list" where
  "instance_words series window_size num_windows word_length breakpoints letter_bits =
     (let split = windows series window_size num_windows;
          split = zscore split
      in case perform_paa_along_dim split word_length of
           Inl e \<Rightarrow> Inl e
         | Inr patterns \<Rightarrow>
             Inr (map (\<lambda>pattern. generate_words pattern word_length breakpoints letter_bits)
                      patterns))"

section \<open>The transformer\<close>

text \<open>The object: its configuration and the two attributes a call may assign.\<close>

record SAX_FAST =
  word_length :: int
  alphabet_size :: int
  window_size :: int
  remove_repeat_words :: bool
  return_sparse :: bool
  save_words :: bool
  return_pandas_data_series :: bool
  words :: "64 word list list"
  letter_bits :: "32 word"

text \<open>The input after \<open>X.squeeze(1)\<close>: its shape and its rows.\<close>

record batch =
  n_instances :: nat
  series_length :: nat
  rows :: "fl list list"

definition well_shaped :: "batch \<Rightarrow> bool" where
  "well_shaped X \<longleftrightarrow>
     length (rows X) = n_instances X \<and> (\<forall>r \<in> set (rows X). length r = series_length X)"

text \<open>
  \<open>_transform\<close>. The result is the raised error or the returned value, together with the
  object as the call leaves it. \<open>np.zeros\<close> refuses a negative number of columns;
  \<open>math.ceil(math.log2(alphabet_size))\<close> is \<open>ceillog2\<close>, and is reached only for an
  alphabet size of 2, 3 or 4.
\<close>

definition transform :: "SAX_FAST \<Rightarrow> batch \<Rightarrow> (error + sax_output) \<times> SAX_FAST" where
  "transform self X =
     (if alphabet_size self < 2 \<or> alphabet_size self > 4
      then (Inl (RuntimeError ''Alphabet size must be an integer between 2 and 4''), self)
      else if word_length self < 1 \<or> word_length self > 16
      then (Inl (RuntimeError ''Word length must be an integer between 1 and 16''), self)
      else
        case generate_breakpoints (alphabet_size self) of
          Inl e \<Rightarrow> (Inl e, self)
        | Inr breakpoints \<Rightarrow>
            let num_windows_per_inst = int (series_length X) - window_size self + 1 in
            if num_windows_per_inst < 0 then (Inl ValueError, self)
            else
              let self1 = self\<lparr>letter_bits := of_nat (ceillog2 (nat (alphabet_size self)))\<rparr>
              in (case map_err (\<lambda>i. instance_words (rows X ! i) (window_size self)
                                      (nat num_windows_per_inst) (nat (word_length self))
                                      breakpoints (unat (letter_bits self1)))
                              [0..<n_instances X] of
                   Inl e \<Rightarrow> (Inl e, self1)
                 | Inr all_words0 \<Rightarrow>
                     let all_words = (if remove_repeat_words self
                                      then remove_repeating_words all_words0
                                      else all_words0);
                         self2 = (if save_words self then self1\<lparr>words := all_words\<rparr>
                                  else self1)
                     in if return_pandas_data_series self
                        then (Inr (DataFrame all_words), self2)
                        else if return_sparse self
                        then (Inr (Sparse (n_instances X) (nat num_windows_per_inst)
                                     (map csr_row all_words)), self2)
                        else (Inr (Dense (n_instances X) (nat num_windows_per_inst)
                                     all_words), self2)))"

section \<open>Packing symbols into a word\<close>

lemma fold_option_map_filter:
  "fold (\<lambda>i w. case g i of Some b \<Rightarrow> f b w | None \<Rightarrow> w) xs a = fold f (List.map_filter g xs) a"
  by (induction xs arbitrary: a) (auto split: option.splits)

lemma generate_words_pack:
  "generate_words pattern wl bps lb = pack_symbols lb (symbols_of pattern wl bps)"
  unfolding generate_words_def pack_symbols_def symbols_of_def
  by (rule fold_option_map_filter [where f = "\<lambda>bp word. emit lb word bp"])

lemma nat_shift_or: "b < 2 ^ n \<Longrightarrow> push_bit n (a::nat) OR b = a * 2 ^ n + b"
proof -
  assume b: "b < 2 ^ n"
  have "a * 2 ^ n + b = a * 2 ^ n OR b"
  proof (rule disjunctive_add)
    fix k
    show "\<not> bit (a * 2 ^ n) k \<or> \<not> bit b k"
    proof (cases "k < n")
      case True
      then show ?thesis using bit_push_bit_iff [of n a k] by (simp add: push_bit_eq_mult)
    next
      case False
      then have "b < 2 ^ k" using b
        by (meson leI less_le_trans one_le_numeral power_increasing)
      then show ?thesis by (simp add: bit_iff_odd)
    qed
  qed
  then show ?thesis by (simp add: push_bit_eq_mult)
qed

lemma unat_emit:
  assumes "unat w < 2 ^ m" "bp < 2 ^ lb" "m + lb \<le> 64"
  shows "unat (emit lb w bp) = unat w * 2 ^ lb + bp"
proof -
  have "(2::nat) ^ lb \<le> 2 ^ 64" using assms(3) by (intro power_increasing) auto
  with assms(2) have bp: "unat (of_nat bp :: 64 word) = bp"
    by (simp add: unat_of_nat)
  have "unat w * 2 ^ lb < 2 ^ m * 2 ^ lb" using assms(1) by simp
  also have "\<dots> = 2 ^ (m + lb)" by (simp add: power_add)
  also have "\<dots> \<le> 2 ^ 64" using assms(3) by (intro power_increasing) auto
  finally have "push_bit lb (unat w) < 2 ^ 64" by (simp add: push_bit_eq_mult)
  then have sh: "unat (push_bit lb w) = push_bit lb (unat w)"
    by (simp add: unsigned_push_bit_eq take_bit_nat_eq_self)
  show ?thesis
    unfolding emit_def by (simp add: unsigned_or_eq bp sh nat_shift_or assms(2))
qed

lemma digits_value_snoc: "digits_value B (xs @ [x]) = digits_value B xs * B + x"
  by (simp add: digits_value_def)

lemma digits_value_bound:
  "\<forall>s \<in> set syms. s < B \<Longrightarrow> digits_value B syms < B ^ length syms"
proof (induction syms rule: rev_induct)
  case Nil
  show ?case by (simp add: digits_value_def)
next
  case (snoc x xs)
  then have "digits_value B xs < B ^ length xs" and x: "x < B" by simp_all
  then have "digits_value B xs + 1 \<le> B ^ length xs" by simp
  then have le: "(digits_value B xs + 1) * B \<le> B ^ length xs * B" by (rule mult_le_mono1)
  have "digits_value B xs * B + x < (digits_value B xs + 1) * B" using x by simp
  also note le
  finally show ?case by (simp add: digits_value_snoc mult.commute)
qed

lemma unat_pack_symbols:
  "\<forall>s \<in> set syms. s < 2 ^ lb \<Longrightarrow> length syms * lb \<le> 64 \<Longrightarrow>
   unat (pack_symbols lb syms) = digits_value (2 ^ lb) syms"
proof (induction syms rule: rev_induct)
  case Nil
  show ?case by (simp add: pack_symbols_def digits_value_def)
next
  case (snoc x xs)
  then have IH: "unat (pack_symbols lb xs) = digits_value (2 ^ lb) xs"
    and x: "x < 2 ^ lb" and len: "length xs * lb + lb \<le> 64" by simp_all
  have "digits_value (2 ^ lb) xs < (2 ^ lb) ^ length xs"
    using snoc.prems(1) by (intro digits_value_bound) simp
  then have "unat (pack_symbols lb xs) < 2 ^ (length xs * lb)"
    by (simp add: IH power_mult mult.commute)
  from unat_emit [OF this x len]
  show ?case by (simp add: pack_symbols_def digits_value_snoc IH [unfolded pack_symbols_def])
qed

lemma digits_value_digit:
  "\<forall>s \<in> set syms. s < B \<Longrightarrow> i < length syms \<Longrightarrow>
   (digits_value B syms div B ^ (length syms - 1 - i)) mod B = syms ! i"
proof (induction syms rule: rev_induct)
  case Nil
  then show ?case by simp
next
  case (snoc x xs)
  then have x: "x < B" by simp
  show ?case
  proof (cases "i = length xs")
    case True
    then show ?thesis using x by (simp add: digits_value_snoc)
  next
    case False
    with snoc.prems have i: "i < length xs" by simp
    define k where "k = length xs - 1 - i"
    have e: "length (xs @ [x]) - 1 - i = Suc k" using i by (simp add: k_def)
    have "(digits_value B xs * B + x) div B = digits_value B xs" using x by simp
    then have "digits_value B (xs @ [x]) div B ^ Suc k = digits_value B xs div B ^ k"
      by (simp add: digits_value_snoc div_mult2_eq)
    moreover have "digits_value B xs div B ^ k mod B = xs ! i"
      unfolding k_def using snoc.prems(1) i by (intro snoc.IH) simp_all
    ultimately show ?thesis using i unfolding e by (simp only: nth_append if_True)
  qed
qed

lemma unpack_pack_symbols:
  assumes "\<forall>s \<in> set syms. s < 2 ^ lb" "length syms * lb \<le> 64"
  shows "unpack_word lb (length syms) (pack_symbols lb syms) = syms"
proof (rule nth_equalityI)
  show "length (unpack_word lb (length syms) (pack_symbols lb syms)) = length syms"
    by (simp add: unpack_word_def)
next
  fix i assume "i < length (unpack_word lb (length syms) (pack_symbols lb syms))"
  then have i: "i < length syms" by (simp add: unpack_word_def)
  have "unpack_word lb (length syms) (pack_symbols lb syms) ! i =
        (unat (pack_symbols lb syms) div 2 ^ ((length syms - 1 - i) * lb)) mod 2 ^ lb"
    using i by (simp add: unpack_word_def flip: take_bit_eq_mask)
       (simp add: unsigned_take_bit_eq unat_drop_bit_eq take_bit_nat_def drop_bit_nat_def)
  also have "\<dots> = (digits_value (2 ^ lb) syms div (2 ^ lb) ^ (length syms - 1 - i)) mod 2 ^ lb"
    using unat_pack_symbols [OF assms] by (simp add: power_mult mult.commute)
  also have "\<dots> = syms ! i" using assms(1) i by (rule digits_value_digit)
  finally show "unpack_word lb (length syms) (pack_symbols lb syms) ! i = syms ! i" .
qed

lemma ceillog2_3: "ceillog2 3 = 2" by (simp add: ceillog2_rec)
lemma ceillog2_4: "ceillog2 4 = 2" by (simp add: ceillog2_rec)


lemma first_breakpoint_less:
  "first_breakpoint v bps = Some bp \<Longrightarrow> bp < length bps"
  by (auto simp: first_breakpoint_def find_Some_iff)



lemma map_filter_all_Some:
  "\<forall>x \<in> set xs. f x = Some (g x) \<Longrightarrow> List.map_filter f xs = map g xs"
  by (induction xs) simp_all

lemma symbols_of_all:
  assumes "length syms = wl" "\<forall>i<wl. first_breakpoint (pattern ! i) bps = Some (syms ! i)"
  shows "symbols_of pattern wl bps = syms"
proof -
  have "symbols_of pattern wl bps = map (\<lambda>i. syms ! i) [0..<wl]"
    unfolding symbols_of_def using assms(2) by (intro map_filter_all_Some) simp
  also have "\<dots> = map (\<lambda>i. syms ! i) [0..<length syms]" by (simp only: assms(1))
  also have "\<dots> = syms" by (rule map_nth)
  finally show ?thesis .
qed


lemma symbols_of_length: "length (symbols_of pattern wl bps) \<le> wl"
  using length_filter_le [of "\<lambda>i. first_breakpoint (pattern ! i) bps \<noteq> None" "[0..<wl]"]
  by (simp add: symbols_of_def List.map_filter_def)

lemma symbols_of_less: "s \<in> set (symbols_of pattern wl bps) \<Longrightarrow> s < length bps"
  by (auto simp: symbols_of_def List.map_filter_def dest: first_breakpoint_less)

lemma pack_symbols_bound:
  assumes "\<forall>s \<in> set syms. s < 2 ^ lb" "length syms * lb \<le> 64"
  shows "unat (pack_symbols lb syms) < 2 ^ (length syms * lb)"
proof -
  have "digits_value (2 ^ lb) syms < (2 ^ lb) ^ length syms"
    using assms(1) by (rule digits_value_bound)
  then show ?thesis
    using unat_pack_symbols [OF assms] by (simp add: power_mult mult.commute)
qed

lemma generate_words_bound:
  assumes "length bps \<le> 2 ^ lb" "wl * lb \<le> 64"
  shows "unat (generate_words pattern wl bps lb) < 2 ^ (wl * lb)"
proof -
  let ?syms = "symbols_of pattern wl bps"
  have small: "\<forall>s \<in> set ?syms. s < 2 ^ lb"
    using assms(1) symbols_of_less [of _ pattern wl bps] by fastforce
  have "length ?syms * lb \<le> wl * lb" by (rule mult_le_mono1) (rule symbols_of_length)
  from this assms(2) have fits: "length ?syms * lb \<le> 64" by (rule le_trans)
  have "unat (pack_symbols lb ?syms) < 2 ^ (length ?syms * lb)"
    using small fits by (rule pack_symbols_bound)
  also have "(2::nat) ^ (length ?syms * lb) \<le> 2 ^ (wl * lb)"
    using symbols_of_length [of pattern wl bps] by (intro power_increasing) simp_all
  finally show ?thesis by (simp add: generate_words_pack)
qed

text \<open>
  C7. Packing is reversible. When every segment of a pattern of \<open>word_length\<close> segments
  is given a symbol below \<open>alphabet_size\<close>, and the \<open>word_length\<close> symbols of
  \<open>ceil(log2(alphabet_size))\<close> bits each fit the 64-bit word, shifting right and masking
  reads the symbols back from the word, in order; so two patterns with different symbol
  sequences never get the same word.
\<close>

theorem word_round_trip:
  assumes "length syms = wl"
    and "\<forall>i<wl. first_breakpoint (pattern ! i) bps = Some (syms ! i)"
    and "\<forall>s \<in> set syms. s < a"
    and "length syms' = wl"
    and "\<forall>i<wl. first_breakpoint (pattern' ! i) bps = Some (syms' ! i)"
    and "\<forall>s \<in> set syms'. s < a"
    and "wl * ceillog2 a \<le> 64"
    and "length pattern = wl" and "length pattern' = wl"
  shows "unpack_word (ceillog2 a) wl (generate_words pattern wl bps (ceillog2 a)) = syms \<and>
         (generate_words pattern' wl bps (ceillog2 a) =
            generate_words pattern wl bps (ceillog2 a) \<longrightarrow> syms' = syms)"
proof -
  have bound: "s < 2 ^ ceillog2 a" if "s < a" for s
    using that le_two_power_ceillog2 [of a] by simp
  have rt: "unpack_word (ceillog2 a) wl (generate_words p wl bps (ceillog2 a)) = ss"
    if "length ss = wl" "\<forall>i<wl. first_breakpoint (p ! i) bps = Some (ss ! i)"
       "\<forall>s \<in> set ss. s < a" for p ss
  proof -
    have "generate_words p wl bps (ceillog2 a) = pack_symbols (ceillog2 a) ss"
      using that(1,2) by (simp add: generate_words_pack symbols_of_all)
    moreover have "\<forall>s \<in> set ss. s < 2 ^ ceillog2 a" using that(3) bound by blast
    moreover have "length ss * ceillog2 a \<le> 64" using that(1) assms(7) by simp
    ultimately show ?thesis using unpack_pack_symbols [of ss "ceillog2 a"] that(1) by simp
  qed
  from rt [OF assms(1-3)] rt [OF assms(4-6)] show ?thesis by auto
qed

theorem word_round_trip_witness:
  "generate_words [Fin 1, Fin (- 1), Fin (1 / 2)] 3 [Fin (- 67 / 100), Fin 0, Fin (67 / 100), PInf] 2 = 50 \<and>
   unpack_word 2 3 (generate_words [Fin 1, Fin (- 1), Fin (1 / 2)] 3
      [Fin (- 67 / 100), Fin 0, Fin (67 / 100), PInf] 2) = [3, 0, 2] \<and>
   generate_words [Fin 1, Fin (- 1), Fin (- 1 / 2)] 3 [Fin (- 67 / 100), Fin 0, Fin (67 / 100), PInf] 2 = 49"
proof -
  let ?bps = "[Fin (- 67 / 100), Fin 0, Fin (67 / 100), PInf]"
  have s: "\<forall>i<3. first_breakpoint ([Fin 1, Fin (- 1), Fin (1 / 2)] ! i) ?bps = Some ([3, 0, 2] ! i)"
    by (simp add: first_breakpoint_def All_less_Suc eval_nat_numeral)
  have s': "\<forall>i<3. first_breakpoint ([Fin 1, Fin (- 1), Fin (- 1 / 2)] ! i) ?bps = Some ([3, 0, 1] ! i)"
    by (simp add: first_breakpoint_def All_less_Suc eval_nat_numeral)
  have g: "generate_words [Fin 1, Fin (- 1), Fin (1 / 2)] 3 ?bps 2 = 50"
    by (simp add: generate_words_def first_breakpoint_def emit_def eval_nat_numeral)
  have g': "generate_words [Fin 1, Fin (- 1), Fin (- 1 / 2)] 3 ?bps 2 = 49"
    by (simp add: generate_words_def first_breakpoint_def emit_def eval_nat_numeral)
  from word_round_trip [of "[3, 0, 2]" 3 "[Fin 1, Fin (- 1), Fin (1 / 2)]" ?bps 4
      "[3, 0, 1]" "[Fin 1, Fin (- 1), Fin (- 1 / 2)]"] s s' g g'
  show ?thesis by (simp add: ceillog2_4)
qed

section \<open>Segments that are not a number\<close>






section \<open>Repeat-word suppression: what one pass does\<close>

lemma remove_repeating_row_idem:
  "remove_repeating_row l (remove_repeating_row l ws) = remove_repeating_row l ws"
proof (induction ws arbitrary: l)
  case Nil
  show ?case by simp
next
  case (Cons w ws)
  show ?case
  proof (cases "l = w")
    case True
    then show ?thesis using Cons.IH [of 0] by (simp add: Let_def)
  next
    case False
    then show ?thesis using Cons.IH [of w] by (simp add: Let_def)
  qed
qed

lemma remove_repeating_row_adjacent:
  "Suc j < length (remove_repeating_row l ws) \<Longrightarrow>
   remove_repeating_row l ws ! j = remove_repeating_row l ws ! Suc j \<Longrightarrow>
   remove_repeating_row l ws ! j = 0"
proof (induction ws arbitrary: l j)
  case Nil
  then show ?case by simp
next
  case (Cons w ws)
  define w' where "w' = (if l = w then 0 else w)"
  have unfold: "remove_repeating_row l (w # ws) = w' # remove_repeating_row w' ws"
    by (simp add: w'_def Let_def)
  show ?case
  proof (cases j)
    case 0
    from Cons.prems(1) obtain x xs where ws: "ws = x # xs"
      unfolding unfold by (cases ws) auto
    have first: "remove_repeating_row l (w # ws) ! 0 = w'"
      by (simp only: unfold nth_Cons_0)
    have "remove_repeating_row w' ws ! 0 = (if w' = x then 0 else x)"
      by (simp add: ws Let_def)
    then have second: "remove_repeating_row l (w # ws) ! Suc 0 = (if w' = x then 0 else x)"
      by (simp only: unfold nth_Cons_Suc)
    from Cons.prems(2) have "w' = (if w' = x then 0 else x)"
      unfolding 0 first second .
    then have "w' = 0" by (simp split: if_splits)
    then show ?thesis unfolding 0 first .
  next
    case (Suc k)
    from Cons.prems have "Suc k < length (remove_repeating_row w' ws)"
      and "remove_repeating_row w' ws ! k = remove_repeating_row w' ws ! Suc k"
      unfolding unfold Suc by simp_all
    then have "remove_repeating_row w' ws ! k = 0" by (rule Cons.IH)
    then show ?thesis unfolding unfold Suc by simp
  qed
qed

text \<open>
  C3. Repeat-word suppression is meant to blank every word that equals the word before it
  in its row, so that a row \<open>[w, w, w]\<close> keeps only its first \<open>w\<close>. The pass compares
  each cell with the cell before it as already rewritten: on the row \<open>[5, 5, 5]\<close> the
  second cell becomes 0, the third is compared with that 0 and stays 5.
\<close>

theorem remove_repeating_words_triple:
  "remove_repeating_words [[5, 5, 5]] = [[5, 0, 5]]"
  by (simp add: remove_repeating_words_def)

text \<open>
  C8. Repeat-word suppression is idempotent: a second pass over a suppressed matrix
  changes no entry, and after one pass no row has two adjacent cells that are equal and
  non-zero.
\<close>

theorem remove_repeating_words_idempotent:
  "remove_repeating_words (remove_repeating_words m) = remove_repeating_words m \<and>
   (\<forall>row \<in> set (remove_repeating_words m). \<forall>j. Suc j < length row \<longrightarrow>
      row ! j = row ! Suc j \<longrightarrow> row ! j = 0)"
proof
  show "remove_repeating_words (remove_repeating_words m) = remove_repeating_words m"
    by (simp add: remove_repeating_words_def remove_repeating_row_idem)
next
  show "\<forall>row \<in> set (remove_repeating_words m). \<forall>j. Suc j < length row \<longrightarrow>
          row ! j = row ! Suc j \<longrightarrow> row ! j = 0"
    by (auto simp: remove_repeating_words_def dest: remove_repeating_row_adjacent)
qed

theorem remove_repeating_words_idempotent_witness:
  "remove_repeating_words [[5, 5, 5, 0, 7, 7], [0, 3]] = [[5, 0, 5, 0, 7, 0], [0, 3]] \<and>
   remove_repeating_words (remove_repeating_words [[5, 5, 5, 0, 7, 7], [0, 3]]) =
     remove_repeating_words [[5, 5, 5, 0, 7, 7], [0, 3]]"
  using remove_repeating_words_idempotent [of "[[5, 5, 5, 0, 7, 7], [0, 3]]"]
  by (simp add: remove_repeating_words_def)

section \<open>Validation\<close>

text \<open>
  C9. When \<open>alphabet_size\<close> is outside 2..4 or \<open>word_length\<close> is outside 1..16, the call
  ends in the configuration error whatever the input and the rest of the configuration
  are (never in a later stage's error, never in a value), and the object is left as it
  was.
\<close>

theorem transform_config_error:
  assumes "alphabet_size self < 2 \<or> alphabet_size self > 4 \<or>
           word_length self < 1 \<or> word_length self > 16"
  shows "(\<exists>msg. fst (transform self X) = Inl (RuntimeError msg)) \<and>
         snd (transform self X) = self"
  using assms by (auto simp: transform_def)

theorem transform_config_error_witness:
  "(let self = \<lparr>word_length = 8, alphabet_size = 11, window_size = 12,
                remove_repeat_words = True, return_sparse = True, save_words = True,
                return_pandas_data_series = False, words = [[7]], letter_bits = 5\<rparr>;
        X = \<lparr>n_instances = 1, series_length = 3, rows = [[Fin 1, Fin 2, Fin 3]]\<rparr>
    in (alphabet_size self < 2 \<or> alphabet_size self > 4 \<or>
        word_length self < 1 \<or> word_length self > 16) \<and>
       generate_breakpoints (alphabet_size self) = Inl KeyError \<and>
       int (series_length X) - window_size self + 1 < 0 \<and>
       (\<exists>msg. fst (transform self X) = Inl (RuntimeError msg)) \<and>
       snd (transform self X) = self)"
  using transform_config_error
    [of "\<lparr>word_length = 8, alphabet_size = 11, window_size = 12,
          remove_repeat_words = True, return_sparse = True, save_words = True,
          return_pandas_data_series = False, words = [[7]], letter_bits = 5\<rparr>"
        "\<lparr>n_instances = 1, series_length = 3, rows = [[Fin 1, Fin 2, Fin 3]]\<rparr>"]
  by (simp add: generate_breakpoints_def)

section \<open>The shape of the compressed rows\<close>

text \<open>
  A division in the loop can only fail for a frame length of zero, that is for an empty
  row, and every write of the loop is inside the output row: on a row that is not empty
  the compression returns. Every row it returns has \<open>num_intervals\<close> columns, so the
  encoder, which reads \<open>pattern[i]\<close> for \<open>i < word_length\<close> without a bounds check,
  reads inside the row.
\<close>

lemma paa_step_inv:
  assumes inv: "paa_inv wl fl k s" and fl: "0 < fl" and k: "real k < real wl * fl"
  shows "\<exists>s'. paa_step fl x s = Inr s' \<and> paa_inv wl fl (Suc k) s'"
proof -
  let ?cf = "current_frame s" and ?cfs = "current_frame_size s"
  from inv have sum: "real ?cf * fl + ?cfs = real k" and lo: "0 \<le> ?cfs"
    and len: "length (data s) = wl"
    by (simp_all add: paa_inv_def)
  have "real ?cf * fl \<le> real k" using sum lo by linarith
  with k have "real ?cf * fl < real wl * fl" by linarith
  with fl have "real ?cf < real wl" by (simp add: mult_less_cancel_right)
  then have cf: "?cf < wl" by simp
  show ?thesis
  proof (cases "fl - ?cfs > 1")
    case True
    then have "?cfs + 1 \<noteq> fl" by linarith
    with True sum lo len show ?thesis
      by (simp add: paa_step_def paa_inv_def Let_def)
  next
    case False
    from fl have "fl \<noteq> 0" by linarith
    with False sum lo len cf show ?thesis
      by (simp add: paa_step_def numba_div_def store_def paa_inv_def Let_def algebra_simps)
  qed
qed

lemma paa_loop_inv:
  assumes "paa_inv wl fl k s" and "0 < fl" and "real (k + length xs) \<le> real wl * fl"
  shows "\<exists>s'. paa_loop fl xs s = Inr s' \<and> paa_inv wl fl (k + length xs) s'"
  using assms
proof (induction xs arbitrary: k s)
  case Nil
  then show ?case by simp
next
  case (Cons x xs)
  from Cons.prems(3) have "real k < real wl * fl" by simp
  from paa_step_inv [OF Cons.prems(1,2) this]
  obtain s1 where step: "paa_step fl x s = Inr s1" and inv: "paa_inv wl fl (Suc k) s1"
    by blast
  from Cons.prems(3) have "real (Suc k + length xs) \<le> real wl * fl" by simp
  from Cons.IH [OF inv Cons.prems(2) this]
  obtain s' where "paa_loop fl xs s1 = Inr s'"
    and "paa_inv wl fl (Suc k + length xs) s'" by blast
  then show ?case by (simp add: step)
qed

lemma paa_row_returns:
  assumes "0 < wl" "series \<noteq> []"
  shows "\<exists>p. paa_row wl series = Inr p \<and> length p = wl"
proof -
  let ?fl = "real (length series) / real wl"
  let ?s0 = "\<lparr>data = replicate wl (Fin 0), current_frame = 0,
               current_frame_size = 0, frame_sum = Fin 0\<rparr>"
  from assms have fl: "0 < ?fl" by simp
  from assms have total: "real wl * ?fl = real (length series)" by simp
  have "paa_inv wl ?fl 0 ?s0" by (simp add: paa_inv_def)
  from paa_loop_inv [OF this fl, of series] total obtain s where
    "paa_loop ?fl series ?s0 = Inr s" "length (data s) = wl"
    by (auto simp: paa_inv_def)
  then show ?thesis
    using assms(1) fl by (auto simp: paa_row_def numba_div_def store_def Let_def)
qed

lemma paa_row_length: "paa_row wl series = Inr p \<Longrightarrow> length p = wl"
proof (cases "wl = 0 \<or> series = []")
  case False
  then show "paa_row wl series = Inr p \<Longrightarrow> length p = wl"
    using paa_row_returns [of wl series] by auto
next
  case True
  assume p: "paa_row wl series = Inr p"
  have wl: "wl \<noteq> 0"
  proof
    assume "wl = 0"
    with p show False by (simp add: paa_row_def)
  qed
  with True have s: "series = []" by simp
  from p wl show "length p = wl"
    by (auto simp: paa_row_def s numba_div_def store_def Let_def split: if_splits)
qed

text \<open>
  With exact arithmetic and \<open>1 <= num_intervals <= num_atts\<close> the loop itself completes
  every frame: the test \<open>current_frame_size == frame_length\<close> holds whenever a frame is
  full. The write after the loop is there for the rounding of doubles, as its comment
  says, and rounding is not part of this model.
\<close>

lemma paa_step_open_frame:
  assumes inv: "paa_inv wl fl k s" and fl: "1 \<le> fl" and k: "real k < real wl * fl"
    and hi: "current_frame_size s < fl"
  shows "\<exists>s'. paa_step fl x s = Inr s' \<and> paa_inv wl fl (Suc k) s' \<and>
              current_frame_size s' < fl"
proof -
  let ?cf = "current_frame s" and ?cfs = "current_frame_size s"
  from inv have sum: "real ?cf * fl + ?cfs = real k" and lo: "0 \<le> ?cfs"
    and len: "length (data s) = wl"
    by (simp_all add: paa_inv_def)
  from fl have pos: "0 < fl" by linarith
  have "real ?cf * fl \<le> real k" using sum lo by linarith
  with k have "real ?cf * fl < real wl * fl" by linarith
  with pos have "real ?cf < real wl" by (simp add: mult_less_cancel_right)
  then have cf: "?cf < wl" by simp
  show ?thesis
  proof (cases "fl - ?cfs > 1")
    case True
    then have "?cfs + 1 \<noteq> fl" by linarith
    with True sum lo len show ?thesis
      by (simp add: paa_step_def paa_inv_def Let_def)
  next
    case False
    from pos have "fl \<noteq> 0" by linarith
    with False sum lo len cf hi fl show ?thesis
      by (simp add: paa_step_def numba_div_def store_def paa_inv_def Let_def algebra_simps)
  qed
qed

lemma paa_loop_open_frame:
  assumes "paa_inv wl fl k s" and "1 \<le> fl" and "real (k + length xs) \<le> real wl * fl"
    and "current_frame_size s < fl"
  shows "\<exists>s'. paa_loop fl xs s = Inr s' \<and> paa_inv wl fl (k + length xs) s' \<and>
              current_frame_size s' < fl"
  using assms
proof (induction xs arbitrary: k s)
  case Nil
  then show ?case by simp
next
  case (Cons x xs)
  from Cons.prems(3) have "real k < real wl * fl" by simp
  from paa_step_open_frame [OF Cons.prems(1,2) this Cons.prems(4)]
  obtain s1 where step: "paa_step fl x s = Inr s1" and inv: "paa_inv wl fl (Suc k) s1"
    and hi: "current_frame_size s1 < fl"
    by blast
  from Cons.prems(3) have "real (Suc k + length xs) \<le> real wl * fl" by simp
  from Cons.IH [OF inv Cons.prems(2) this hi]
  obtain s' where "paa_loop fl xs s1 = Inr s'"
    and "paa_inv wl fl (Suc k + length xs) s'" and "current_frame_size s' < fl" by blast
  then show ?case by (simp add: step)
qed

lemma paa_loop_completes:
  assumes "1 \<le> wl" "wl \<le> length series"
  shows "\<exists>s. paa_loop (real (length series) / real wl) series
               \<lparr>data = replicate wl (Fin 0), current_frame = 0,
                 current_frame_size = 0, frame_sum = Fin 0\<rparr> = Inr s \<and>
             current_frame s = wl \<and> paa_row wl series = Inr (data s)"
proof -
  define fl where "fl = real (length series) / real wl"
  let ?s0 = "\<lparr>data = replicate wl (Fin 0), current_frame = 0,
               current_frame_size = 0, frame_sum = Fin 0\<rparr>"
  from assms have fl1: "1 \<le> fl" by (simp add: fl_def)
  from assms have total: "real wl * fl = real (length series)" by (simp add: fl_def)
  have "paa_inv wl fl 0 ?s0" by (simp add: paa_inv_def)
  from paa_loop_open_frame [OF this fl1, of series] total fl1
  obtain s where loop: "paa_loop fl series ?s0 = Inr s"
    and inv: "paa_inv wl fl (length series) s" and hi: "current_frame_size s < fl" by auto
  from inv have sum: "real (current_frame s) * fl + current_frame_size s = real (length series)"
    and lo: "0 \<le> current_frame_size s"
    by (simp_all add: paa_inv_def)
  from sum total have eq: "(real wl - real (current_frame s)) * fl = current_frame_size s"
    by (simp add: algebra_simps)
  have pos: "0 < fl" using fl1 by linarith
  have "0 \<le> (real wl - real (current_frame s)) * fl" using eq lo by simp
  then have ge: "0 \<le> real wl - real (current_frame s)"
    using pos by (simp add: zero_le_mult_iff)
  have "(real wl - real (current_frame s)) * fl < 1 * fl" using eq hi by simp
  then have lt: "real wl - real (current_frame s) < 1"
    using pos by (simp add: mult_less_cancel_right)
  from ge lt have cf: "current_frame s = wl" by linarith
  with assms(1) have "current_frame s \<noteq> wl - 1" by simp
  then have "paa_row wl series = Inr (data s)"
    using assms(1) loop by (simp add: paa_row_def fl_def Let_def)
  with loop cf show ?thesis unfolding fl_def by blast
qed

section \<open>The call as a whole\<close>

lemma map_err_Inr:
  "map_err f xs = Inr ys \<Longrightarrow>
   length ys = length xs \<and> (\<forall>i<length xs. f (xs ! i) = Inr (ys ! i))"
proof (induction xs arbitrary: ys)
  case Nil
  then show ?case by simp
next
  case (Cons x xs)
  from Cons.prems obtain y ys' where fx: "f x = Inr y" and rest: "map_err f xs = Inr ys'"
    and ys: "ys = y # ys'"
    by (auto split: sum.splits)
  from Cons.IH [OF rest] show ?case
    by (auto simp: ys fx nth_Cons split: nat.splits)
qed

lemma map_err_all_Inr:
  "\<forall>x \<in> set xs. f x = Inr (g x) \<Longrightarrow> map_err f xs = Inr (map g xs)"
  by (induction xs) simp_all

lemma instance_words_Inr:
  assumes "instance_words series ws numw wl bps lb = Inr row"
  shows "length row = numw \<and>
         (\<forall>j<numw. \<exists>p. length p = wl \<and> row ! j = generate_words p wl bps lb)"
proof -
  from assms obtain patterns where
    paa: "perform_paa_along_dim (zscore (windows series ws numw)) wl = Inr patterns"
    and row: "row = map (\<lambda>p. generate_words p wl bps lb) patterns"
    by (auto simp: instance_words_def Let_def split: sum.splits)
  from map_err_Inr [OF paa [unfolded perform_paa_along_dim_def]]
  have len: "length patterns = numw"
    and each: "\<forall>j<numw. paa_row wl (zscore (windows series ws numw) ! j) = Inr (patterns ! j)"
    by (simp_all add: zscore_def windows_def)
  have "length (patterns ! j) = wl" if "j < numw" for j
    using each that paa_row_length by blast
  with len show ?thesis by (auto simp: row)
qed

text \<open>
  On a batch of the shape it declares, every index of the sliding windows is inside the
  series.
\<close>

lemma windows_in_range:
  assumes "well_shaped X" and "i < n_instances X"
    and "w < nat (int (series_length X) - ws + 1)" and "k < nat ws"
  shows "w + k < length (rows X ! i)"
proof -
  from assms(1,2) have "length (rows X ! i) = series_length X"
    by (simp add: well_shaped_def)
  with assms(3,4) show ?thesis by linarith
qed

lemma instance_words_no_windows: "instance_words series ws 0 wl bps lb = Inr []"
  by (simp add: instance_words_def windows_def zscore_def perform_paa_along_dim_def)

lemma remove_repeating_row_length: "length (remove_repeating_row l ws) = length ws"
  by (induction ws arbitrary: l) (simp_all add: Let_def)

text \<open>The letter width and the breakpoints of the three valid alphabet sizes.\<close>

lemma valid_alphabet:
  assumes "2 \<le> a" "a \<le> 4"
  obtains bps where "generate_breakpoints a = Inr bps"
    and "length bps \<le> 2 ^ ceillog2 (nat a)"
    and "unat (of_nat (ceillog2 (nat a)) :: 32 word) = ceillog2 (nat a)"
    and "ceillog2 (nat a) \<le> 2"
proof -
  from assms consider "a = 2" | "a = 3" | "a = 4" by linarith
  then show thesis
  proof cases
    case 1
    then show ?thesis using that [of "[Fin 0, PInf]"]
      by (simp add: generate_breakpoints_def)
  next
    case 2
    then show ?thesis using that [of "[Fin (- 43 / 100), Fin (43 / 100), PInf]"]
      by (simp add: generate_breakpoints_def ceillog2_3)
  next
    case 3
    then show ?thesis using that [of "[Fin (- 67 / 100), Fin 0, Fin (67 / 100), PInf]"]
      by (simp add: generate_breakpoints_def ceillog2_4)
  qed
qed

lemma letter_bits_le_2: "2 \<le> a \<Longrightarrow> a \<le> 4 \<Longrightarrow> ceillog2 (nat a) \<le> 2"
  by (erule (1) valid_alphabet)

text \<open>The result of a call whose configuration is valid, stage by stage.\<close>

lemma transform_fst:
  assumes "2 \<le> alphabet_size self" "alphabet_size self \<le> 4"
    "1 \<le> word_length self" "word_length self \<le> 16"
    "generate_breakpoints (alphabet_size self) = Inr bps"
    "0 \<le> int (series_length X) - window_size self + 1"
  shows "fst (transform self X) =
     (case map_err (\<lambda>i. instance_words (rows X ! i) (window_size self)
                (nat (int (series_length X) - window_size self + 1)) (nat (word_length self))
                bps (ceillog2 (nat (alphabet_size self))))
       [0..<n_instances X] of
        Inl e \<Rightarrow> Inl e
      | Inr all_words0 \<Rightarrow>
          Inr (let all_words = (if remove_repeat_words self
                               then remove_repeating_words all_words0 else all_words0)
               in if return_pandas_data_series self then DataFrame all_words
                  else if return_sparse self
                  then Sparse (n_instances X)
                         (nat (int (series_length X) - window_size self + 1))
                         (map csr_row all_words)
                  else Dense (n_instances X)
                         (nat (int (series_length X) - window_size self + 1)) all_words))"
proof -
  from assms(1,2) have lb: "unat (of_nat (ceillog2 (nat (alphabet_size self))) :: 32 word) =
             ceillog2 (nat (alphabet_size self))"
    by (rule valid_alphabet)
  show ?thesis
    using assms by (simp add: transform_def lb Let_def split: sum.splits)
qed

lemma transform_Inr:
  assumes "fst (transform self X) = Inr out"
  obtains bps all_words0 where
    "2 \<le> alphabet_size self" "alphabet_size self \<le> 4"
    "1 \<le> word_length self" "word_length self \<le> 16"
    "generate_breakpoints (alphabet_size self) = Inr bps"
    "0 \<le> int (series_length X) - window_size self + 1"
    "map_err (\<lambda>i. instance_words (rows X ! i) (window_size self)
                (nat (int (series_length X) - window_size self + 1)) (nat (word_length self))
                bps (ceillog2 (nat (alphabet_size self))))
       [0..<n_instances X] = Inr all_words0"
    "out = (let all_words = (if remove_repeat_words self
                             then remove_repeating_words all_words0 else all_words0)
            in if return_pandas_data_series self then DataFrame all_words
               else if return_sparse self
               then Sparse (n_instances X) (nat (int (series_length X) - window_size self + 1))
                      (map csr_row all_words)
               else Dense (n_instances X) (nat (int (series_length X) - window_size self + 1))
                      all_words)"
proof -
  from assms have a: "2 \<le> alphabet_size self" "alphabet_size self \<le> 4"
    and w: "1 \<le> word_length self" "word_length self \<le> 16"
    by (auto simp: transform_def split: if_splits)
  from a obtain bps where bps: "generate_breakpoints (alphabet_size self) = Inr bps"
    by (rule valid_alphabet)
  from assms a w bps have nw: "0 \<le> int (series_length X) - window_size self + 1"
    by (auto simp: transform_def Let_def split: if_splits)
  from assms show thesis
    unfolding transform_fst [OF a w bps nw]
    by (auto split: sum.splits intro: that [OF a w bps nw])
qed

text \<open>The shape and the size of the cells of the word matrix.\<close>

lemma remove_repeating_row_set:
  "set (remove_repeating_row l ws) \<subseteq> insert 0 (set ws)"
  by (induction ws arbitrary: l) (auto simp: Let_def)

lemma word_matrix:
  assumes "2 \<le> a" "a \<le> 4" "1 \<le> wl" "wl \<le> 16"
    and "generate_breakpoints a = Inr bps"
    and "map_err (\<lambda>i. instance_words (rs ! i) ws m (nat wl) bps (ceillog2 (nat a))) [0..<n] =
         Inr all_words0"
    and "all_words = (if r then remove_repeating_words all_words0 else all_words0)"
  shows "length all_words = n"
    and "\<forall>row \<in> set all_words. length row = m"
    and "\<forall>row \<in> set all_words. \<forall>e \<in> set row. unat e < 2 ^ (ceillog2 (nat a) * nat wl)"
proof -
  let ?lb = "ceillog2 (nat a)"
  from assms(1,2) obtain bps' where "generate_breakpoints a = Inr bps'"
    and "length bps' \<le> 2 ^ ?lb" and "?lb \<le> 2"
    by (rule valid_alphabet)
  with assms(5) have bps: "length bps \<le> 2 ^ ?lb" and lb: "?lb \<le> 2" by simp_all
  have "nat wl * ?lb \<le> 16 * 2" using assms(4) lb by (intro mult_mono) simp_all
  then have fits: "nat wl * ?lb \<le> 64" by simp
  from map_err_Inr [OF assms(6)]
  have len0: "length all_words0 = n"
    and rows0: "\<forall>i<n. instance_words (rs ! i) ws m (nat wl) bps ?lb = Inr (all_words0 ! i)"
    by simp_all
  have row0: "length row = m \<and> (\<forall>e \<in> set row. unat e < 2 ^ (?lb * nat wl))"
    if "row \<in> set all_words0" for row
  proof -
    from that len0 obtain i where "i < n" "row = all_words0 ! i"
      by (auto simp: in_set_conv_nth)
    with rows0 have "instance_words (rs ! i) ws m (nat wl) bps ?lb = Inr row" by simp
    from instance_words_Inr [OF this]
    have len: "length row = m" and gen: "\<forall>j<m. \<exists>p. row ! j = generate_words p (nat wl) bps ?lb"
      by blast+
    have "unat e < 2 ^ (?lb * nat wl)" if "e \<in> set row" for e
    proof -
      from that len gen obtain p where "e = generate_words p (nat wl) bps ?lb"
        by (auto simp: in_set_conv_nth)
      then show ?thesis using generate_words_bound [OF bps fits, of p]
        by (simp add: mult.commute)
    qed
    with len show ?thesis by blast
  qed
  show "length all_words = n"
    by (simp add: assms(7) len0 remove_repeating_words_def)
  show "\<forall>row \<in> set all_words. length row = m"
    using row0 by (auto simp: assms(7) remove_repeating_words_def remove_repeating_row_length)
  show "\<forall>row \<in> set all_words. \<forall>e \<in> set row. unat e < 2 ^ (?lb * nat wl)"
  proof (cases r)
    case False
    then show ?thesis using row0 by (simp add: assms(7))
  next
    case True
    show ?thesis
    proof (intro ballI)
      fix row e assume "row \<in> set all_words" "e \<in> set row"
      then obtain row0 where r0: "row0 \<in> set all_words0"
        and "e \<in> set (remove_repeating_row 0 row0)"
        by (auto simp: assms(7) True remove_repeating_words_def)
      then have "e = 0 \<or> e \<in> set row0" using remove_repeating_row_set [of 0 row0] by auto
      then show "unat e < 2 ^ (?lb * nat wl)" using row0 [OF r0] by auto
    qed
  qed
qed

text \<open>Reading the sparse form back.\<close>

lemma map_of_csr_from:
  "map_of (map (\<lambda>(j, w). (j, (ucast w :: 32 word)))
             (filter (\<lambda>(j, w). w \<noteq> 0) (zip [k..<k + length r] (r :: 64 word list)))) j =
   (if k \<le> j \<and> j < k + length r \<and> r ! (j - k) \<noteq> 0 then Some (ucast (r ! (j - k))) else None)"
proof (induction r arbitrary: k)
  case Nil
  show ?case by simp
next
  case (Cons w r)
  define stored :: "nat \<Rightarrow> 64 word list \<Rightarrow> (nat \<times> 32 word) list" where
    "stored = (\<lambda>k r. map (\<lambda>(j, w). (j, ucast w))
                        (filter (\<lambda>(j, w). w \<noteq> 0) (zip [k..<k + length r] r)))"
  have IH: "map_of (stored (Suc k) r) j =
      (if Suc k \<le> j \<and> j < Suc k + length r \<and> r ! (j - Suc k) \<noteq> 0
       then Some (ucast (r ! (j - Suc k))) else None)"
    unfolding stored_def by (rule Cons.IH)
  have "[k..<k + length (w # r)] = k # [Suc k..<k + length (w # r)]"
    by (rule upt_conv_Cons) simp
  then have "[k..<k + length (w # r)] = k # [Suc k..<Suc k + length r]" by simp
  then have unfold: "stored k (w # r) =
      (if w \<noteq> 0 then (k, ucast w) # stored (Suc k) r else stored (Suc k) r)"
    unfolding stored_def by simp
  have goal: "map_of (stored k (w # r)) j =
      (if k \<le> j \<and> j < k + length (w # r) \<and> (w # r) ! (j - k) \<noteq> 0
       then Some (ucast ((w # r) ! (j - k))) else None)"
  proof (cases "j = k")
    case True
    with IH show ?thesis by (simp add: unfold)
  next
    case False
    show ?thesis
    proof (cases "k < j")
      case True
      then obtain d where d: "j = Suc k + d" using less_imp_Suc_add by auto
      from IH show ?thesis by (simp add: unfold d)
    next
      case False
      with \<open>j \<noteq> k\<close> have "j < k" by simp
      with IH show ?thesis by (simp add: unfold)
    qed
  qed
  then show ?case unfolding stored_def .
qed

lemma csr_entry_row:
  "i < length ws \<Longrightarrow> j < length (ws ! i) \<Longrightarrow>
   csr_entry (map csr_row ws) i j = ucast (ws ! i ! j)"
  using map_of_csr_from [of 0 "ws ! i" j]
  by (simp add: csr_entry_def csr_row_def)

lemma small_word_values:
  assumes "unat (w :: 64 word) < 2 ^ k" "k \<le> 32"
  shows "uint (ucast w :: 32 word) = sint w" and "0 \<le> sint w" and "sint w < 2 ^ k"
    and "uint (ucast w :: 32 word) < 2 ^ k"
proof -
  have "int (unat w) < int (2 ^ k)" using assms(1) by (simp only: of_nat_less_iff)
  then have b: "uint w < 2 ^ k" by (simp only: uint_nat of_nat_power of_nat_numeral)
  have "(2::int) ^ k \<le> 2 ^ 32" using assms(2) by (intro power_increasing) simp_all
  with b have b32: "uint w < 2 ^ 32" by (rule less_le_trans)
  have "(2::int) ^ 32 \<le> 2 ^ 63" by (intro power_increasing) simp_all
  with b32 have b63: "uint w < 2 ^ 63" by (rule less_le_trans)
  have nn: "0 \<le> uint w" by (rule uint_ge_0)
  have "- (2 ^ 63) \<le> (0::int)" by simp
  with nn have lo: "- (2 ^ 63) \<le> uint w" by (rule order_trans [rotated])
  have "sint w = signed_take_bit 63 (uint w)" by (simp only: sint_uint) simp
  also have "\<dots> = uint w" using lo b63 by (rule signed_take_bit_int_eq_self)
  finally have s: "sint w = uint w" .
  have "uint (ucast w :: 32 word) = take_bit 32 (uint w)"
    by (simp only: unsigned_ucast_eq) simp
  also have "\<dots> = uint w" using nn b32 by (rule take_bit_int_eq_self)
  finally have c: "uint (ucast w :: 32 word) = uint w" .
  show "uint (ucast w :: 32 word) = sint w" by (simp only: s c)
  show "0 \<le> sint w" by (simp only: s nn)
  show "sint w < 2 ^ k" by (simp only: s b)
  show "uint (ucast w :: 32 word) < 2 ^ k" by (simp only: c b)
qed


lemma upt_4: "[0..<4] = [0, 1, 2, 3]" by (simp add: upt_rec)
lemma upt_2: "[0..<2] = [0, 1]" by (simp add: upt_rec)

lemma csr_row_set: "(j, v) \<in> set (csr_row r) \<Longrightarrow> \<exists>e \<in> set r. v = ucast e"
  by (auto simp: csr_row_def dest: set_zip_rightD)

section \<open>The range of the words\<close>

text \<open>
  C2. Every number of a returned output, with or without repeat suppression and in each
  of the three output forms, is at least 0 and below 2 to the power of
  \<open>letter_bits * word_length\<close>. For two and four letters that bound is
  \<open>alphabet_size ^ word_length\<close>; for three letters, which take two bits each, it is
  \<open>4 ^ word_length\<close>.
\<close>

theorem word_values_in_range:
  assumes "fst (transform self X) = Inr out"
  shows "\<forall>v \<in> set (output_entries out).
           0 \<le> v \<and>
           v < 2 ^ (ceillog2 (nat (alphabet_size self)) * nat (word_length self)) \<and>
           (alphabet_size self \<noteq> 3 \<longrightarrow> v < alphabet_size self ^ nat (word_length self))"
proof -
  let ?a = "alphabet_size self" and ?wl = "word_length self"
  let ?k = "ceillog2 (nat ?a) * nat ?wl"
  from assms obtain bps all_words0 where
    a: "2 \<le> ?a" "?a \<le> 4" and w: "1 \<le> ?wl" "?wl \<le> 16"
    and bps: "generate_breakpoints ?a = Inr bps"
    and run: "map_err (\<lambda>i. instance_words (rows X ! i) (window_size self)
                (nat (int (series_length X) - window_size self + 1)) (nat ?wl)
                bps (ceillog2 (nat ?a))) [0..<n_instances X] = Inr all_words0"
    and out: "out = (let all_words = (if remove_repeat_words self
                             then remove_repeating_words all_words0 else all_words0)
            in if return_pandas_data_series self then DataFrame all_words
               else if return_sparse self
               then Sparse (n_instances X) (nat (int (series_length X) - window_size self + 1))
                      (map csr_row all_words)
               else Dense (n_instances X) (nat (int (series_length X) - window_size self + 1))
                      all_words)"
    by (rule transform_Inr)
  define all_words where
    "all_words = (if remove_repeat_words self then remove_repeating_words all_words0
                  else all_words0)"
  have cells: "\<forall>row \<in> set all_words. \<forall>e \<in> set row. unat e < 2 ^ ?k"
    using a w bps run all_words_def by (rule word_matrix(3))
  from a have "ceillog2 (nat ?a) \<le> 2" by (rule letter_bits_le_2)
  then have "?k \<le> 2 * 16" using w(2) by (intro mult_mono) simp_all
  then have k: "?k \<le> 32" by simp
  have pow: "(2::int) ^ ?k = ?a ^ nat ?wl" if "?a \<noteq> 3"
  proof -
    from a that consider "?a = 2" | "?a = 4" by linarith
    then show ?thesis
    proof cases
      case 1
      then show ?thesis by simp
    next
      case 2
      have "(2::int) ^ (2 * nat ?wl) = (2 ^ 2) ^ nat ?wl" by (rule power_mult)
      then show ?thesis by (simp add: 2 ceillog2_4)
    qed
  qed
  have entry: "0 \<le> v \<and> v < 2 ^ ?k \<and> (?a \<noteq> 3 \<longrightarrow> v < ?a ^ nat ?wl)"
    if "v = sint e \<or> v = uint (ucast e :: 32 word)" "e \<in> set row" "row \<in> set all_words"
    for v e row
  proof -
    from cells that(2,3) have "unat e < 2 ^ ?k" by blast
    from small_word_values [OF this k] that(1)
    have "0 \<le> v" "v < 2 ^ ?k" by auto
    then show ?thesis using pow by auto
  qed
  have form: "out = DataFrame all_words \<or>
      out = Sparse (n_instances X) (nat (int (series_length X) - window_size self + 1))
              (map csr_row all_words) \<or>
      out = Dense (n_instances X) (nat (int (series_length X) - window_size self + 1)) all_words"
    by (simp add: out all_words_def Let_def)
  show ?thesis
  proof
    fix v assume v: "v \<in> set (output_entries out)"
    from form v consider
        e row where "v = sint e" "e \<in> set row" "row \<in> set all_words"
      | j u row where "v = uint u" "(j, u) \<in> set (csr_row row)" "row \<in> set all_words"
      by (elim disjE) auto
    then show "0 \<le> v \<and> v < 2 ^ ?k \<and> (?a \<noteq> 3 \<longrightarrow> v < ?a ^ nat ?wl)"
    proof cases
      case 1
      then show ?thesis using entry by blast
    next
      case 2
      from csr_row_set [OF 2(2)] obtain e where "e \<in> set row" "u = ucast e" by blast
      with 2 show ?thesis using entry [of v e row] by simp
    qed
  qed
qed

text \<open>
  With three letters the words are not below \<open>alphabet_size ^ word_length\<close>: the window
  \<open>[1, 1, -1, -1]\<close> is its own z-normalisation, its four segments get the symbols
  2, 2, 0, 0, and the word is 160, above \<open>3 ^ 4 = 81\<close>.
\<close>

lemma example_zscore:
  "zscore_row [Fin 1, Fin 1, Fin (- 1), Fin (- 1)] = [Fin 1, Fin 1, Fin (- 1), Fin (- 1)]"
  by (simp add: zscore_row_def fmean_def fstd_def fsum_def fsub_def Let_def)

lemma example_paa:
  "paa_row 4 [Fin 1, Fin 1, Fin (- 1), Fin (- 1)] = Inr [Fin 1, Fin 1, Fin (- 1), Fin (- 1)]"
  by (simp add: paa_row_def paa_step_def numba_div_def store_def eval_nat_numeral)

lemma example_word:
  "generate_words [Fin 1, Fin 1, Fin (- 1), Fin (- 1)] 4
     [Fin (- 43 / 100), Fin (43 / 100), PInf] 2 = 160"
  by (simp add: generate_words_def first_breakpoint_def emit_def eval_nat_numeral)

lemma example_instance:
  "instance_words [Fin 1, Fin 1, Fin (- 1), Fin (- 1)] 4 1 4
     [Fin (- 43 / 100), Fin (43 / 100), PInf] 2 = Inr [160]"
  using example_zscore example_paa example_word
  by (simp add: instance_words_def windows_def upt_4 zscore_def perform_paa_along_dim_def)

theorem word_values_counterexample:
  "fst (transform \<lparr>word_length = 4, alphabet_size = 3, window_size = 4,
                    remove_repeat_words = False, return_sparse = False, save_words = False,
                    return_pandas_data_series = False, words = [], letter_bits = 0\<rparr>
                  \<lparr>n_instances = 1, series_length = 4,
                    rows = [[Fin 1, Fin 1, Fin (- 1), Fin (- 1)]]\<rparr>) =
     Inr (Dense 1 1 [[160]]) \<and>
   \<not> sint (160 :: 64 word) < 3 ^ 4"
  using example_instance
  by (simp add: transform_def generate_breakpoints_def ceillog2_3 Let_def)

theorem word_values_in_range_witness:
  "fst (transform \<lparr>word_length = 4, alphabet_size = 3, window_size = 4,
                    remove_repeat_words = False, return_sparse = False, save_words = False,
                    return_pandas_data_series = False, words = [], letter_bits = 0\<rparr>
                  \<lparr>n_instances = 1, series_length = 4,
                    rows = [[Fin 1, Fin 1, Fin (- 1), Fin (- 1)]]\<rparr>) =
     Inr (Dense 1 1 [[160]]) \<and>
   output_entries (Dense 1 1 [[160]]) = [160] \<and>
   (160 :: int) < 2 ^ (ceillog2 3 * 4)"
proof -
  have run: "fst (transform \<lparr>word_length = 4, alphabet_size = 3, window_size = 4,
                    remove_repeat_words = False, return_sparse = False, save_words = False,
                    return_pandas_data_series = False, words = [], letter_bits = 0\<rparr>
                  \<lparr>n_instances = 1, series_length = 4,
                    rows = [[Fin 1, Fin 1, Fin (- 1), Fin (- 1)]]\<rparr>) =
     Inr (Dense 1 1 [[160]])"
    using example_instance
    by (simp add: transform_def generate_breakpoints_def ceillog2_3 Let_def)
  from word_values_in_range [OF run] have "(160 :: int) < 2 ^ (ceillog2 3 * 4)"
    by simp
  with run show ?thesis by simp
qed

section \<open>A window longer than the series\<close>

lemma remove_repeating_words_empty_rows:
  "remove_repeating_words (replicate n []) = replicate n []"
  by (simp add: remove_repeating_words_def)

text \<open>
  C5. The window size is not checked against the series length. With a valid alphabet
  size and word length, a window more than one sample longer than the series makes the
  number of windows negative and the allocation of the word matrix fails: the call ends
  in that error and the object is unchanged. A window exactly one sample longer than the
  series gives zero windows: the call returns an output with one empty row per instance,
  a matrix with zero columns.
\<close>

theorem window_longer_than_series:
  assumes "2 \<le> alphabet_size self" and "alphabet_size self \<le> 4"
    and "1 \<le> word_length self" and "word_length self \<le> 16"
    and "window_size self > int (series_length X)"
  shows "(window_size self = int (series_length X) + 1 \<longrightarrow>
            fst (transform self X) =
              Inr (if return_pandas_data_series self then DataFrame (replicate (n_instances X) [])
                   else if return_sparse self
                   then Sparse (n_instances X) 0 (replicate (n_instances X) [])
                   else Dense (n_instances X) 0 (replicate (n_instances X) []))) \<and>
         (window_size self > int (series_length X) + 1 \<longrightarrow>
            transform self X = (Inl ValueError, self))"
proof (intro conjI impI)
  from assms(1,2) obtain bps where bps: "generate_breakpoints (alphabet_size self) = Inr bps"
    by (rule valid_alphabet)
  {
    assume ws: "window_size self = int (series_length X) + 1"
    then have nw: "0 \<le> int (series_length X) - window_size self + 1" by simp
    have "map_err (\<lambda>i. instance_words (rows X ! i) (window_size self)
                (nat (int (series_length X) - window_size self + 1)) (nat (word_length self))
                bps (ceillog2 (nat (alphabet_size self)))) [0..<n_instances X] =
          Inr (map (\<lambda>i. []) [0..<n_instances X])"
      by (rule map_err_all_Inr) (simp add: ws instance_words_no_windows)
    then show "fst (transform self X) =
              Inr (if return_pandas_data_series self then DataFrame (replicate (n_instances X) [])
                   else if return_sparse self
                   then Sparse (n_instances X) 0 (replicate (n_instances X) [])
                   else Dense (n_instances X) 0 (replicate (n_instances X) []))"
      unfolding transform_fst [OF assms(1-4) bps nw]
      by (simp add: ws map_replicate_const remove_repeating_words_empty_rows csr_row_def)
  }
  {
    assume "window_size self > int (series_length X) + 1"
    then show "transform self X = (Inl ValueError, self)"
      using assms(1-4) by (simp add: transform_def bps)
  }
qed

theorem window_longer_than_series_witness:
  "fst (transform \<lparr>word_length = 8, alphabet_size = 4, window_size = 13,
                    remove_repeat_words = True, return_sparse = True, save_words = False,
                    return_pandas_data_series = False, words = [], letter_bits = 0\<rparr>
                  \<lparr>n_instances = 2, series_length = 12, rows = [replicate 12 (Fin 1), replicate 12 (Fin 2)]\<rparr>) =
     Inr (Sparse 2 0 [[], []]) \<and>
   transform \<lparr>word_length = 8, alphabet_size = 4, window_size = 14,
               remove_repeat_words = True, return_sparse = True, save_words = False,
               return_pandas_data_series = False, words = [], letter_bits = 0\<rparr>
             \<lparr>n_instances = 2, series_length = 12, rows = [replicate 12 (Fin 1), replicate 12 (Fin 2)]\<rparr> =
     (Inl ValueError,
      \<lparr>word_length = 8, alphabet_size = 4, window_size = 14,
               remove_repeat_words = True, return_sparse = True, save_words = False,
               return_pandas_data_series = False, words = [], letter_bits = 0\<rparr>)"
  using window_longer_than_series
      [of "\<lparr>word_length = 8, alphabet_size = 4, window_size = 13,
                    remove_repeat_words = True, return_sparse = True, save_words = False,
                    return_pandas_data_series = False, words = [], letter_bits = 0\<rparr>"
          "\<lparr>n_instances = 2, series_length = 12, rows = [replicate 12 (Fin 1), replicate 12 (Fin 2)]\<rparr>"]
    window_longer_than_series
      [of "\<lparr>word_length = 8, alphabet_size = 4, window_size = 14,
                    remove_repeat_words = True, return_sparse = True, save_words = False,
                    return_pandas_data_series = False, words = [], letter_bits = 0\<rparr>"
          "\<lparr>n_instances = 2, series_length = 12, rows = [replicate 12 (Fin 1), replicate 12 (Fin 2)]\<rparr>"]
  by (simp add: eval_nat_numeral)

text \<open>
  A series of three samples and a window of four: the call returns the dense matrix
  with one row and no column.
\<close>

theorem window_longer_than_series_counterexample:
  "window_size \<lparr>word_length = 8, alphabet_size = 4, window_size = 4,
                 remove_repeat_words = False, return_sparse = False, save_words = False,
                 return_pandas_data_series = False, words = [], letter_bits = 0\<rparr> >
   int (series_length \<lparr>n_instances = 1, series_length = 3, rows = [[Fin 1, Fin 2, Fin 3]]\<rparr>) \<and>
   fst (transform \<lparr>word_length = 8, alphabet_size = 4, window_size = 4,
                    remove_repeat_words = False, return_sparse = False, save_words = False,
                    return_pandas_data_series = False, words = [], letter_bits = 0\<rparr>
                  \<lparr>n_instances = 1, series_length = 3, rows = [[Fin 1, Fin 2, Fin 3]]\<rparr>) =
     Inr (Dense 1 0 [[]])"
  by (simp add: transform_def generate_breakpoints_def Let_def instance_words_no_windows)

section \<open>Dense and sparse output\<close>

text \<open>
  C1. With \<open>return_pandas_data_series = False\<close>, the call with \<open>return_sparse = True\<close>
  and the call with \<open>return_sparse = False\<close> on the same input and otherwise the same
  configuration end alike: in the same error, or in a sparse and a dense matrix of the same
  shape, one row per instance and one column per window, that hold the same number at
  every position. (A valid configuration is not assumed: an invalid one ends both calls in
  the same error.)
\<close>

theorem sparse_dense_same_content:
  "case fst (transform (self\<lparr>return_pandas_data_series := False, return_sparse := False\<rparr>) X) of
     Inl e \<Rightarrow>
       fst (transform (self\<lparr>return_pandas_data_series := False, return_sparse := True\<rparr>) X) =
         Inl e
   | Inr out \<Rightarrow>
       (\<exists>D S. out = Dense (n_instances X)
                       (nat (int (series_length X) - window_size self + 1)) D \<and>
              fst (transform (self\<lparr>return_pandas_data_series := False,
                                    return_sparse := True\<rparr>) X) =
                Inr (Sparse (n_instances X)
                       (nat (int (series_length X) - window_size self + 1)) S) \<and>
              length D = n_instances X \<and> length S = n_instances X \<and>
              (\<forall>i<n_instances X.
                 length (D ! i) = nat (int (series_length X) - window_size self + 1) \<and>
                 (\<forall>j<nat (int (series_length X) - window_size self + 1).
                    uint (csr_entry S i j) = sint (D ! i ! j))))"
proof (cases "fst (transform (self\<lparr>return_pandas_data_series := False,
                                     return_sparse := False\<rparr>) X)")
  case (Inl e)
  then have "fst (transform (self\<lparr>return_pandas_data_series := False,
                                    return_sparse := True\<rparr>) X) = Inl e"
    by (auto simp: transform_def Let_def split: if_splits sum.splits)
  with Inl show ?thesis by simp
next
  case (Inr out)
  let ?sd = "self\<lparr>return_pandas_data_series := False, return_sparse := False\<rparr>"
  let ?ss = "self\<lparr>return_pandas_data_series := False, return_sparse := True\<rparr>"
  let ?n = "n_instances X" and ?m = "nat (int (series_length X) - window_size self + 1)"
  let ?a = "alphabet_size self" and ?wl = "word_length self"
  let ?k = "ceillog2 (nat ?a) * nat ?wl"
  from Inr obtain bps all_words0 where
    a': "2 \<le> alphabet_size ?sd" "alphabet_size ?sd \<le> 4"
    and w': "1 \<le> word_length ?sd" "word_length ?sd \<le> 16"
    and bps': "generate_breakpoints (alphabet_size ?sd) = Inr bps"
    and nw': "0 \<le> int (series_length X) - window_size ?sd + 1"
    and run': "map_err (\<lambda>i. instance_words (rows X ! i) (window_size ?sd)
                (nat (int (series_length X) - window_size ?sd + 1)) (nat (word_length ?sd))
                bps (ceillog2 (nat (alphabet_size ?sd))))
       [0..<n_instances X] = Inr all_words0"
    and out': "out = (let all_words = (if remove_repeat_words ?sd
                             then remove_repeating_words all_words0 else all_words0)
            in if return_pandas_data_series ?sd then DataFrame all_words
               else if return_sparse ?sd
               then Sparse (n_instances X) (nat (int (series_length X) - window_size ?sd + 1))
                      (map csr_row all_words)
               else Dense (n_instances X) (nat (int (series_length X) - window_size ?sd + 1))
                      all_words)"
    by (rule transform_Inr)
  from a' have a: "2 \<le> ?a" "?a \<le> 4" by simp_all
  from w' have w: "1 \<le> ?wl" "?wl \<le> 16" by simp_all
  from bps' have bps: "generate_breakpoints ?a = Inr bps" by simp
  from nw' have nw: "0 \<le> int (series_length X) - window_size self + 1" by simp
  from run' have run: "map_err (\<lambda>i. instance_words (rows X ! i) (window_size self) ?m (nat ?wl)
                bps (ceillog2 (nat ?a))) [0..<?n] = Inr all_words0" by simp
  from out' have out: "out = Dense ?n ?m (if remove_repeat_words self
                                  then remove_repeating_words all_words0 else all_words0)"
    by (simp add: Let_def)
  define D where
    "D = (if remove_repeat_words self then remove_repeating_words all_words0 else all_words0)"
  have sparse: "fst (transform ?ss X) = Inr (Sparse ?n ?m (map csr_row D))"
    using transform_fst [of ?ss bps X] a w bps nw run by (simp add: D_def Let_def)
  have len: "length D = ?n"
    and rows: "\<forall>row \<in> set D. length row = ?m"
    and cells: "\<forall>row \<in> set D. \<forall>e \<in> set row. unat e < 2 ^ ?k"
    using word_matrix [OF a w bps run D_def] by blast+
  from a have "ceillog2 (nat ?a) \<le> 2" by (rule letter_bits_le_2)
  then have "?k \<le> 2 * 16" using w(2) by (intro mult_mono) simp_all
  then have k: "?k \<le> 32" by simp
  have entry: "length (D ! i) = ?m \<and> (\<forall>j<?m. uint (csr_entry (map csr_row D) i j) = sint (D ! i ! j))"
    if i: "i < ?n" for i
  proof -
    from i len have row: "D ! i \<in> set D" by simp
    with rows have m: "length (D ! i) = ?m" by blast
    have "uint (csr_entry (map csr_row D) i j) = sint (D ! i ! j)" if j: "j < ?m" for j
    proof -
      from j m have "D ! i ! j \<in> set (D ! i)" by simp
      with cells row have "unat (D ! i ! j) < 2 ^ ?k" by blast
      from small_word_values(1) [OF this k] show ?thesis
        using i j len m by (simp add: csr_entry_row)
    qed
    with m show ?thesis by blast
  qed
  have "out = Dense ?n ?m D \<and> fst (transform ?ss X) = Inr (Sparse ?n ?m (map csr_row D)) \<and>
        length D = ?n \<and> length (map csr_row D) = ?n \<and>
        (\<forall>i<?n. length (D ! i) = ?m \<and>
           (\<forall>j<?m. uint (csr_entry (map csr_row D) i j) = sint (D ! i ! j)))"
    using out sparse len entry by (simp add: D_def)
  then have "\<exists>D S. out = Dense ?n ?m D \<and> fst (transform ?ss X) = Inr (Sparse ?n ?m S) \<and>
        length D = ?n \<and> length S = ?n \<and>
        (\<forall>i<?n. length (D ! i) = ?m \<and> (\<forall>j<?m. uint (csr_entry S i j) = sint (D ! i ! j)))"
    by blast
  with Inr show ?thesis by simp
qed

text \<open>
  An instance \<open>[1, 1, -1]\<close> with windows of two samples: the first window is constant
  and gets the word 0, which the sparse form does not store; the second gets the word 12.
\<close>

lemma example_zscore_constant: "zscore_row [Fin 1, Fin 1] = [NaN, NaN]"
  by (simp add: zscore_row_def fmean_def fstd_def fsum_def fsub_def Let_def signed_inf_def)

lemma example_zscore_step: "zscore_row [Fin 1, Fin (- 1)] = [Fin 1, Fin (- 1)]"
  by (simp add: zscore_row_def fmean_def fstd_def fsum_def fsub_def Let_def)

lemma example_paa_nan: "paa_row 2 [NaN, NaN] = Inr [NaN, NaN]"
  by (simp add: paa_row_def paa_step_def numba_div_def store_def eval_nat_numeral)

lemma example_paa_step: "paa_row 2 [Fin 1, Fin (- 1)] = Inr [Fin 1, Fin (- 1)]"
  by (simp add: paa_row_def paa_step_def numba_div_def store_def eval_nat_numeral)

lemma example_word_nan:
  "generate_words [NaN, NaN] 2 [Fin (- 67 / 100), Fin 0, Fin (67 / 100), PInf] 2 = 0"
  by (simp add: generate_words_def first_breakpoint_def emit_def eval_nat_numeral)

lemma example_word_step:
  "generate_words [Fin 1, Fin (- 1)] 2 [Fin (- 67 / 100), Fin 0, Fin (67 / 100), PInf] 2 = 12"
  by (simp add: generate_words_def first_breakpoint_def emit_def eval_nat_numeral)

lemma example_instance_constant:
  "instance_words [Fin 1, Fin 1, Fin (- 1)] 2 2 2
     [Fin (- 67 / 100), Fin 0, Fin (67 / 100), PInf] 2 = Inr [0, 12]"
  using example_zscore_constant example_zscore_step example_paa_nan example_paa_step
    example_word_nan example_word_step
  by (simp add: instance_words_def windows_def upt_2 zscore_def perform_paa_along_dim_def)

theorem sparse_dense_same_content_witness:
  "fst (transform \<lparr>word_length = 2, alphabet_size = 4, window_size = 2,
                    remove_repeat_words = False, return_sparse = False, save_words = False,
                    return_pandas_data_series = False, words = [], letter_bits = 0\<rparr>
                  \<lparr>n_instances = 1, series_length = 3, rows = [[Fin 1, Fin 1, Fin (- 1)]]\<rparr>) =
     Inr (Dense 1 2 [[0, 12]]) \<and>
   fst (transform \<lparr>word_length = 2, alphabet_size = 4, window_size = 2,
                    remove_repeat_words = False, return_sparse = True, save_words = False,
                    return_pandas_data_series = False, words = [], letter_bits = 0\<rparr>
                  \<lparr>n_instances = 1, series_length = 3, rows = [[Fin 1, Fin 1, Fin (- 1)]]\<rparr>) =
     Inr (Sparse 1 2 [[(1, 12)]]) \<and>
   uint (csr_entry [[(1, 12)]] 0 0) = sint ([[0, 12 :: 64 word]] ! 0 ! 0) \<and>
   uint (csr_entry [[(1, 12)]] 0 1) = sint ([[0, 12 :: 64 word]] ! 0 ! 1)"
proof -
  let ?self = "\<lparr>word_length = 2, alphabet_size = 4, window_size = 2,
                    remove_repeat_words = False, return_sparse = False, save_words = False,
                    return_pandas_data_series = False, words = [], letter_bits = 0\<rparr>"
  let ?X = "\<lparr>n_instances = 1, series_length = 3, rows = [[Fin 1, Fin 1, Fin (- 1)]]\<rparr>"
  have dense: "fst (transform ?self ?X) = Inr (Dense 1 2 [[0, 12]])"
    using example_instance_constant
    by (simp add: transform_def generate_breakpoints_def ceillog2_4 Let_def)
  have sparse: "fst (transform (?self\<lparr>return_sparse := True\<rparr>) ?X) = Inr (Sparse 1 2 [[(1, 12)]])"
    using example_instance_constant
    by (simp add: transform_def generate_breakpoints_def ceillog2_4 Let_def csr_row_def upt_2)
  from sparse_dense_same_content [of ?self ?X] dense sparse
  show ?thesis by (simp add: All_less_Suc eval_nat_numeral)
qed

section \<open>Windows of zero variance\<close>





















end
